theory Spec2Isabelle
  imports Main "HOL-Library.Sublist"
begin

section \<open>JavaScript values read from the feed\<close>

text \<open>
  The court records are objects parsed from JSON. A property of such an object is
  absent (\<open>JUndefined\<close>), \<open>null\<close>, a boolean, a number or a string. Numbers are
  modelled as mathematical integers: this is what JavaScript computes for integers of
  magnitude below \<open>2^53\<close>; fractions, arrays and nested objects are outside the model.
  A string is modelled by the bytes of its UTF-8 encoding, so concatenation and equality
  are those of the JavaScript string.

  The result of an arithmetic conversion is a \<open>number\<close>: \<open>NaN\<close> or an integer
  (the two zeros of JavaScript compare, print and subtract alike in this program, and
  are one value here).
\<close>

datatype jsval = JUndefined | JNull | JBool bool | JNum int | JStr string

datatype number = NaN | Fin int

text \<open>\<open>ToBoolean\<close>, and the expression \<open>v || 0\<close>.\<close>

fun ToBoolean :: "jsval \<Rightarrow> bool" where
  "ToBoolean JUndefined = False"
| "ToBoolean JNull = False"
| "ToBoolean (JBool b) = b"
| "ToBoolean (JNum n) = (n \<noteq> 0)"
| "ToBoolean (JStr s) = (s \<noteq> [])"

definition or_zero :: "jsval \<Rightarrow> jsval" where
  "or_zero v = (if ToBoolean v then v else JNum 0)"

subsection \<open>Numbers to strings\<close>

definition digit_char :: "nat \<Rightarrow> char" where
  "digit_char d = ''0123456789'' ! d"

fun nat_to_string :: "nat \<Rightarrow> string" where
  "nat_to_string n =
     (if n < 10 then [digit_char n]
      else nat_to_string (n div 10) @ [digit_char (n mod 10)])"

declare nat_to_string.simps [simp del]

definition int_to_string :: "int \<Rightarrow> string" where
  "int_to_string i =
     (if i < 0 then CHR ''-'' # nat_to_string (nat (- i)) else nat_to_string (nat i))"

text \<open>\<open>ToString\<close>, as a template literal \<open>`${v}`\<close> and \<open>parseInt\<close> apply it.\<close>

fun ToString :: "jsval \<Rightarrow> string" where
  "ToString JUndefined = ''undefined''"
| "ToString JNull = ''null''"
| "ToString (JBool b) = (if b then ''true'' else ''false'')"
| "ToString (JNum n) = int_to_string n"
| "ToString (JStr s) = s"

fun number_to_string :: "number \<Rightarrow> string" where
  "number_to_string NaN = ''NaN''"
| "number_to_string (Fin n) = int_to_string n"

subsection \<open>White space\<close>

text \<open>
  The white space and line terminator characters of ECMAScript, each as its UTF-8
  bytes: TAB, LF, VT, FF, CR, SP, U+00A0, U+1680, U+2000 to U+200A, U+2028, U+2029,
  U+202F, U+205F, U+3000 and U+FEFF.
\<close>

definition WhiteSpace :: "string list" where
  "WhiteSpace =
     [[CHR 0x09], [CHR 0x0A], [CHR 0x0B], [CHR 0x0C], [CHR 0x0D], [CHR 0x20],
      [CHR 0xC2, CHR 0xA0],
      [CHR 0xE1, CHR 0x9A, CHR 0x80],
      [CHR 0xE2, CHR 0x80, CHR 0x80], [CHR 0xE2, CHR 0x80, CHR 0x81],
      [CHR 0xE2, CHR 0x80, CHR 0x82], [CHR 0xE2, CHR 0x80, CHR 0x83],
      [CHR 0xE2, CHR 0x80, CHR 0x84], [CHR 0xE2, CHR 0x80, CHR 0x85],
      [CHR 0xE2, CHR 0x80, CHR 0x86], [CHR 0xE2, CHR 0x80, CHR 0x87],
      [CHR 0xE2, CHR 0x80, CHR 0x88], [CHR 0xE2, CHR 0x80, CHR 0x89],
      [CHR 0xE2, CHR 0x80, CHR 0x8A],
      [CHR 0xE2, CHR 0x80, CHR 0xA8], [CHR 0xE2, CHR 0x80, CHR 0xA9],
      [CHR 0xE2, CHR 0x80, CHR 0xAF],
      [CHR 0xE2, CHR 0x81, CHR 0x9F],
      [CHR 0xE3, CHR 0x80, CHR 0x80],
      [CHR 0xEF, CHR 0xBB, CHR 0xBF]]"

definition leading_space :: "string \<Rightarrow> nat" where
  "leading_space s =
     (case filter (\<lambda>w. prefix w s) WhiteSpace of [] \<Rightarrow> 0 | w # _ \<Rightarrow> length w)"

definition trailing_space :: "string \<Rightarrow> nat" where
  "trailing_space s =
     (case filter (\<lambda>w. suffix w s) WhiteSpace of [] \<Rightarrow> 0 | w # _ \<Rightarrow> length w)"

lemma leading_space_le: "leading_space s \<le> length s"
  by (auto simp: leading_space_def filter_eq_Cons_iff prefix_length_le split: list.splits)

lemma trailing_space_le: "trailing_space s \<le> length s"
  by (auto simp: trailing_space_def filter_eq_Cons_iff suffix_length_le split: list.splits)

function trimStart :: "string \<Rightarrow> string" where
  "trimStart s =
     (if leading_space s = 0 then s else trimStart (drop (leading_space s) s))"
  by pat_completeness auto
termination
proof (relation "measure length")
  show "wf (measure length)" by simp
next
  fix s :: string
  assume "leading_space s \<noteq> 0"
  moreover have "leading_space s \<le> length s" by (rule leading_space_le)
  ultimately show "(drop (leading_space s) s, s) \<in> measure length" by simp
qed

function trimEnd :: "string \<Rightarrow> string" where
  "trimEnd s =
     (if trailing_space s = 0 then s else trimEnd (take (length s - trailing_space s) s))"
  by pat_completeness auto
termination
proof (relation "measure length")
  show "wf (measure length)" by simp
next
  fix s :: string
  assume "trailing_space s \<noteq> 0"
  moreover have "trailing_space s \<le> length s" by (rule trailing_space_le)
  ultimately show "(take (length s - trailing_space s) s, s) \<in> measure length" by simp
qed

declare trimStart.simps [simp del]
declare trimEnd.simps [simp del]

definition trim :: "string \<Rightarrow> string" where
  "trim s = trimEnd (trimStart s)"

subsection \<open>\<open>parseInt\<close> with no radix argument\<close>

text \<open>
  \<open>parseInt(v)\<close> converts \<open>v\<close> to a string, skips leading white space, reads an optional
  sign, reads a \<open>0x\<close> or \<open>0X\<close> prefix as radix 16 and takes radix 10 otherwise, and
  evaluates the longest prefix of digits of that radix. With no digit the result is
  \<open>NaN\<close>. Whatever follows the digits is ignored.
\<close>

definition digit_of :: "char \<Rightarrow> nat option" where
  "digit_of =
     map_of
      [(CHR ''0'', 0), (CHR ''1'', 1), (CHR ''2'', 2), (CHR ''3'', 3), (CHR ''4'', 4),
       (CHR ''5'', 5), (CHR ''6'', 6), (CHR ''7'', 7), (CHR ''8'', 8), (CHR ''9'', 9),
       (CHR ''a'', 10), (CHR ''b'', 11), (CHR ''c'', 12), (CHR ''d'', 13),
       (CHR ''e'', 14), (CHR ''f'', 15),
       (CHR ''A'', 10), (CHR ''B'', 11), (CHR ''C'', 12), (CHR ''D'', 13),
       (CHR ''E'', 14), (CHR ''F'', 15)]"

definition radix_digit :: "nat \<Rightarrow> char \<Rightarrow> bool" where
  "radix_digit R c = (case digit_of c of None \<Rightarrow> False | Some d \<Rightarrow> d < R)"

definition digits_value :: "nat \<Rightarrow> string \<Rightarrow> nat" where
  "digits_value R ds =
     foldl (\<lambda>acc c. acc * R + (case digit_of c of None \<Rightarrow> 0 | Some d \<Rightarrow> d)) 0 ds"

definition strip_sign :: "string \<Rightarrow> int \<times> string" where
  "strip_sign s =
     (case s of
        [] \<Rightarrow> (1, [])
      | c # cs \<Rightarrow>
          if c = CHR ''-'' then (- 1, cs) else if c = CHR ''+'' then (1, cs) else (1, s))"

definition strip_radix :: "string \<Rightarrow> nat \<times> string" where
  "strip_radix s =
     (if prefix ''0x'' s \<or> prefix ''0X'' s then (16, drop 2 s) else (10, s))"

definition parseInt_string :: "string \<Rightarrow> number" where
  "parseInt_string inputString =
     (let (sign, S) = strip_sign (trimStart inputString);
          (R, S') = strip_radix S;
          Z = takeWhile (radix_digit R) S'
      in if Z = [] then NaN else Fin (sign * int (digits_value R Z)))"

definition parseInt :: "jsval \<Rightarrow> number" where
  "parseInt v = parseInt_string (ToString v)"

subsection \<open>Comparison and arithmetic on numbers\<close>

text \<open>Every comparison with \<open>NaN\<close> is false, and arithmetic on \<open>NaN\<close> gives \<open>NaN\<close>.\<close>

fun js_gt :: "number \<Rightarrow> number \<Rightarrow> bool" where
  "js_gt (Fin a) (Fin b) = (a > b)"
| "js_gt _ _ = False"

fun js_strict_eq :: "number \<Rightarrow> number \<Rightarrow> bool" where
  "js_strict_eq (Fin a) (Fin b) = (a = b)"
| "js_strict_eq _ _ = False"

fun js_sub :: "number \<Rightarrow> number \<Rightarrow> number" where
  "js_sub (Fin a) (Fin b) = Fin (a - b)"
| "js_sub _ _ = NaN"

fun js_add :: "number \<Rightarrow> number \<Rightarrow> number" where
  "js_add (Fin a) (Fin b) = Fin (a + b)"
| "js_add _ _ = NaN"

section \<open>Court records and detected changes\<close>

text \<open>
  A court record of the feed, with the property names of the source. The text
  properties and the count are arbitrary values of the feed. \<open>District_Name_EN\<close> is
  read only through \<open>?.trim()\<close>, which is defined on a string and on an absent or
  \<open>null\<close> property (\<open>None\<close> here) and raises on every other value; the records of
  the model carry a string or nothing there, so detection is a total function.
\<close>

record court =
  Venue_Name_EN :: jsval
  District_Name_EN :: "string option"
  Available_Date :: jsval
  Session_Start_Time :: jsval
  Session_End_Time :: jsval
  Available_Courts :: jsval

datatype change_type = new_availability | increased_availability

text \<open>
  The object pushed onto \<open>changes\<close>. Every variant writes the first five
  properties. The enhanced variants add the counts, \<open>increase\<close> (only on an
  \<open>increased_availability\<close> change) and the rendered \<open>message\<close>;
  \<open>monitor-courts.js\<close> adds the counts as \<open>courts\<close> and \<open>previous\<close>.
\<close>

record change_head =
  type :: change_type
  venue :: jsval
  district :: "string option"
  date :: jsval
  time :: string

record change = change_head +
  currentCount :: number
  previousCount :: number
  increase :: "number option"
  message :: string

record change_basic = change_head +
  courts :: number
  previous :: number

subsection \<open>\<open>formatDate\<close>\<close>

text \<open>
  \<open>new Date(dateString)\<close> and the getters \<open>getDay\<close>, \<open>getMonth\<close> and \<open>getDate\<close>
  belong to the host and read its time zone; the model takes them as a parameter
  \<open>newDate\<close>. On an invalid date every getter returns \<open>NaN\<close>.
\<close>

datatype host_date = Invalid_Date | Local_Date nat nat nat

fun getDay :: "host_date \<Rightarrow> number" where
  "getDay Invalid_Date = NaN"
| "getDay (Local_Date wd m d) = Fin (int wd)"

fun getMonth :: "host_date \<Rightarrow> number" where
  "getMonth Invalid_Date = NaN"
| "getMonth (Local_Date wd m d) = Fin (int m)"

fun getDate :: "host_date \<Rightarrow> number" where
  "getDate Invalid_Date = NaN"
| "getDate (Local_Date wd m d) = Fin (int d)"

definition dayNames :: "string list" where
  "dayNames = [''Sun'', ''Mon'', ''Tue'', ''Wed'', ''Thu'', ''Fri'', ''Sat'']"

text \<open>\<open>dayNames[i]\<close>: \<open>undefined\<close> when \<open>i\<close> is no index of the array.\<close>

fun dayNames_at :: "number \<Rightarrow> jsval" where
  "dayNames_at NaN = JUndefined"
| "dayNames_at (Fin i) =
     (if 0 \<le> i \<and> i < int (length dayNames) then JStr (dayNames ! nat i) else JUndefined)"

definition padStart :: "nat \<Rightarrow> char \<Rightarrow> string \<Rightarrow> string" where
  "padStart n c s = replicate (n - length s) c @ s"

definition formatDate :: "(jsval \<Rightarrow> host_date) \<Rightarrow> jsval \<Rightarrow> string" where
  "formatDate newDate dateString =
     (let date = newDate dateString;
          dayName = dayNames_at (getDay date);
          month = padStart 2 (CHR ''0'') (number_to_string (js_add (getMonth date) (Fin 1)));
          day = padStart 2 (CHR ''0'') (number_to_string (getDate date))
      in ToString dayName @ '', '' @ month @ ''/'' @ day)"

subsection \<open>\<open>detectChanges\<close>\<close>

text \<open>
  The function of \<open>monitor-courts-enhanced.js\<close>. \<open>monitor-courts-firebase.js\<close>
  and the third, unnamed variant hold the same text but for one line of logging.
\<close>

text \<open>The green circle U+1F7E2, the bullet U+2022 and the line feed of the message.\<close>

definition green_circle :: string where
  "green_circle = [CHR 0xF0, CHR 0x9F, CHR 0x9F, CHR 0xA2]"

definition bullet :: string where
  "bullet = [CHR 0xE2, CHR 0x80, CHR 0xA2]"

definition newline :: string where
  "newline = [CHR 0x0A]"

text \<open>The key of the lookup: \<open>`${Venue_Name_EN}-${Available_Date}-${Session_Start_Time}`\<close>.\<close>

definition court_key :: "court \<Rightarrow> string" where
  "court_key court =
     ToString (Venue_Name_EN court) @ ''-'' @ ToString (Available_Date court) @ ''-''
       @ ToString (Session_Start_Time court)"

text \<open>\<open>previousMap\<close>: a later record with the same key replaces the earlier one.\<close>

definition previousMap :: "court list \<Rightarrow> (string \<rightharpoonup> court)" where
  "previousMap previousData =
     foldl (\<lambda>m court. m(court_key court \<mapsto> court)) Map.empty previousData"

definition time_range :: "court \<Rightarrow> string" where
  "time_range currentCourt =
     ToString (Session_Start_Time currentCourt) @ ''-'' @ ToString (Session_End_Time currentCourt)"

definition message_head :: "(jsval \<Rightarrow> host_date) \<Rightarrow> court \<Rightarrow> number \<Rightarrow> string" where
  "message_head newDate currentCourt currentAvailable =
     green_circle @ '' '' @ ToString (Venue_Name_EN currentCourt) @ newline @ ''   ''
       @ formatDate newDate (Available_Date currentCourt) @ '' '' @ bullet @ '' ''
       @ time_range currentCourt @ newline @ ''   Now available: ''
       @ number_to_string currentAvailable @ '' courts (was ''"

text \<open>The body of \<open>currentData.forEach\<close>, with \<open>changes\<close> passed through.\<close>

definition check_court ::
  "(jsval \<Rightarrow> host_date) \<Rightarrow> (string \<rightharpoonup> court) \<Rightarrow> change list \<Rightarrow> court \<Rightarrow> change list" where
  "check_court newDate pm changes currentCourt =
     (case pm (court_key currentCourt) of
        None \<Rightarrow> changes
      | Some previousCourt \<Rightarrow>
          (let currentAvailable = parseInt (or_zero (Available_Courts currentCourt));
               previousAvailable = parseInt (or_zero (Available_Courts previousCourt))
           in if js_gt currentAvailable (Fin 0) \<and> js_strict_eq previousAvailable (Fin 0) then
                changes @
                  [\<lparr>type = new_availability,
                    venue = Venue_Name_EN currentCourt,
                    district = map_option trim (District_Name_EN currentCourt),
                    date = Available_Date currentCourt,
                    time = time_range currentCourt,
                    currentCount = currentAvailable,
                    previousCount = Fin 0,
                    increase = None,
                    message = message_head newDate currentCourt currentAvailable @ ''0)''\<rparr>]
              else if js_gt currentAvailable previousAvailable \<and> js_gt previousAvailable (Fin 0) then
                changes @
                  [\<lparr>type = increased_availability,
                    venue = Venue_Name_EN currentCourt,
                    district = map_option trim (District_Name_EN currentCourt),
                    date = Available_Date currentCourt,
                    time = time_range currentCourt,
                    currentCount = currentAvailable,
                    previousCount = previousAvailable,
                    increase = Some (js_sub currentAvailable previousAvailable),
                    message =
                      message_head newDate currentCourt currentAvailable
                        @ number_to_string previousAvailable @ '')''\<rparr>]
              else changes))"

text \<open>\<open>previousData\<close> is \<open>None\<close> when nothing was loaded (\<open>null\<close> in the source).\<close>

definition detectChanges ::
  "(jsval \<Rightarrow> host_date) \<Rightarrow> court list \<Rightarrow> court list option \<Rightarrow> change list" where
  "detectChanges newDate currentData previousData =
     (case previousData of
        None \<Rightarrow> []
      | Some pd \<Rightarrow> foldl (check_court newDate (previousMap pd)) [] currentData)"

section \<open>\<open>formatNotificationContent\<close>\<close>

record notification =
  title :: string
  body :: string
  changes :: "change list"

text \<open>The badminton symbol U+1F3F8 of the title.\<close>

definition badminton :: string where
  "badminton = [CHR 0xF0, CHR 0x9F, CHR 0x8F, CHR 0xB8]"

text \<open>\<open>Array.prototype.join\<close> on strings.\<close>

fun join :: "string \<Rightarrow> string list \<Rightarrow> string" where
  "join sep [] = []"
| "join sep [x] = x"
| "join sep (x # y # ys) = x @ sep @ join sep (y # ys)"

definition formatNotificationContent :: "change list \<Rightarrow> notification option" where
  "formatNotificationContent chs =
     (if length chs = 0 then None
      else if length chs = 1 then
        Some \<lparr>title = badminton @ '' Court Available!'',
              body = message (chs ! 0),
              changes = chs\<rparr>
      else
        Some \<lparr>title = badminton @ '' '' @ nat_to_string (length chs) @ '' Courts Available!'',
              body =
                (let body = join (newline @ newline) (map message (take 3 chs))
                 in if length chs > 3 then
                      body @ newline @ newline @ ''... and '' @ nat_to_string (length chs - 3)
                        @ '' more changes''
                    else body),
              changes = chs\<rparr>)"

section \<open>The variant \<open>monitor-courts.js\<close>\<close>

text \<open>
  A JavaScript \<open>Map\<close> that is iterated: its entries in insertion order. \<open>set\<close> on a
  key that is present replaces the value and keeps the position of the entry.
\<close>

fun map_set :: "(string \<times> court) list \<Rightarrow> string \<Rightarrow> court \<Rightarrow> (string \<times> court) list" where
  "map_set [] key court = [(key, court)]"
| "map_set ((k, v) # m) key court =
     (if k = key then (key, court) # m else (k, v) # map_set m key court)"

definition currentMap :: "court list \<Rightarrow> (string \<times> court) list" where
  "currentMap currentData =
     foldl (\<lambda>m court. map_set m (court_key court) court) [] currentData"

text \<open>
  The body of \<open>currentMap.forEach\<close>, with \<open>changes\<close> passed through as
  \<open>chs\<close>. The previous map is built as in the enhanced
  variants and is only looked up, so \<open>previousMap\<close> stands for it. The second branch
  has no test of the previous count.
\<close>

definition check_entry ::
  "(string \<rightharpoonup> court) \<Rightarrow> change_basic list \<Rightarrow> string \<times> court \<Rightarrow> change_basic list" where
  "check_entry pm chs entry =
     (case entry of (key, currentCourt) \<Rightarrow>
        (case pm key of
           None \<Rightarrow> chs
         | Some previousCourt \<Rightarrow>
             (let currentAvailable = parseInt (or_zero (Available_Courts currentCourt));
                  previousAvailable = parseInt (or_zero (Available_Courts previousCourt))
              in if js_gt currentAvailable (Fin 0) \<and> js_strict_eq previousAvailable (Fin 0) then
                   chs @
                     [\<lparr>type = new_availability,
                       venue = Venue_Name_EN currentCourt,
                       district = map_option trim (District_Name_EN currentCourt),
                       date = Available_Date currentCourt,
                       time = time_range currentCourt,
                       courts = currentAvailable,
                       previous = Fin 0\<rparr>]
                 else if js_gt currentAvailable previousAvailable then
                   chs @
                     [\<lparr>type = increased_availability,
                       venue = Venue_Name_EN currentCourt,
                       district = map_option trim (District_Name_EN currentCourt),
                       date = Available_Date currentCourt,
                       time = time_range currentCourt,
                       courts = currentAvailable,
                       previous = previousAvailable\<rparr>]
                 else chs)))"

definition detectChanges_basic :: "court list \<Rightarrow> court list option \<Rightarrow> change_basic list" where
  "detectChanges_basic currentData previousData =
     (case previousData of
        None \<Rightarrow> []
      | Some pd \<Rightarrow> foldl (check_entry (previousMap pd)) [] (currentMap currentData))"

text \<open>
  \<open>formatNotificationMessage\<close>. \<open>toLocaleDateString\<close> stands for
  \<open>new Date(change.date).toLocaleDateString('en-US', {weekday: 'short'})\<close>, which the
  host computes. \<open>change.date.split\<close> raises a \<open>TypeError\<close> when the date is not a
  string; the loop then ends and the error reaches the caller. \<open>msg\<close> is the
  variable \<open>message\<close> of the source.
\<close>

datatype js_error = TypeError

text \<open>\<open>String.prototype.split\<close> with a separator of one character.\<close>

fun split_on :: "char \<Rightarrow> string \<Rightarrow> string list" where
  "split_on sep [] = [[]]"
| "split_on sep (c # cs) =
     (if c = sep then [] # split_on sep cs
      else (case split_on sep cs of [] \<Rightarrow> [[c]] | w # ws \<Rightarrow> (c # w) # ws))"

text \<open>The two replacement characters U+FFFD that head the message in the file.\<close>

definition replacement_chars :: string where
  "replacement_chars = [CHR 0xEF, CHR 0xBF, CHR 0xBD, CHR 0xEF, CHR 0xBF, CHR 0xBD]"

definition render_change :: "(jsval \<Rightarrow> string) \<Rightarrow> string \<Rightarrow> change_basic \<Rightarrow> js_error + string" where
  "render_change toLocaleDateString msg change =
     (let dayName = toLocaleDateString (date change) in
      case date change of
        JStr d \<Rightarrow>
          (let formattedDate = dayName @ '', '' @ join ''/'' (tl (split_on (CHR ''-'') d)) in
           Inr (msg
                  @ green_circle @ '' '' @ ToString (venue change) @ newline
                  @ ''   '' @ formattedDate @ '' '' @ bullet @ '' '' @ time change @ newline
                  @ ''   Now available: '' @ number_to_string (courts change)
                  @ '' courts (was '' @ number_to_string (previous change) @ '')''
                  @ newline @ newline))
      | _ \<Rightarrow> Inl TypeError)"

fun render_changes ::
  "(jsval \<Rightarrow> string) \<Rightarrow> string \<Rightarrow> change_basic list \<Rightarrow> js_error + string" where
  "render_changes toLocaleDateString msg [] = Inr msg"
| "render_changes toLocaleDateString msg (change # rest) =
     (case render_change toLocaleDateString msg change of
        Inl e \<Rightarrow> Inl e
      | Inr msg' \<Rightarrow> render_changes toLocaleDateString msg' rest)"

definition formatNotificationMessage ::
  "(jsval \<Rightarrow> string) \<Rightarrow> change_basic list \<Rightarrow> js_error + string" where
  "formatNotificationMessage toLocaleDateString chs =
     (if length chs = 0 then Inr ''No changes detected''
      else
        render_changes toLocaleDateString
          (replacement_chars @ '' AVAILABILITY CHANGES:'' @ newline
             @ ''------------------------------'' @ newline @ newline)
          chs)"

text \<open>
  \<open>main\<close> of \<open>monitor-courts.js\<close>: one attempt to fetch, the module variable
  \<open>previousData\<close> as the state, and the message it prints. An error raised while the
  message is built is caught by \<open>main\<close>, which then leaves \<open>previousData\<close> as it was.
\<close>

definition main_basic ::
  "(jsval \<Rightarrow> string) \<Rightarrow> court list option \<Rightarrow> court list option
     \<Rightarrow> court list option \<times> string list" where
  "main_basic toLocaleDateString http previousData =
     (case http of
        None \<Rightarrow> (previousData, [])
      | Some currentData \<Rightarrow>
          (let chs = detectChanges_basic currentData previousData in
           if length chs > 0 then
             (case formatNotificationMessage toLocaleDateString chs of
                Inl e \<Rightarrow> (previousData, [])
              | Inr msg \<Rightarrow> (Some currentData, [msg]))
           else (Some currentData, [])))"

section \<open>The cycle of \<open>monitor-courts-enhanced.js\<close>\<close>










section \<open>The chunked store of \<open>monitor-courts-firebase.js\<close>\<close>

text \<open>
  The collection \<open>court_data\<close> holds the document \<open>metadata\<close> and the documents
  \<open>chunk_0\<close>, \<open>chunk_1\<close>, ... A batch is a list of writes, committed as a whole or
  not at all (\<open>commits\<close>); a failed commit is caught and logged. The property
  \<open>data\<close> of a chunk document is the field \<open>chunk_data\<close>.
\<close>

record metadata_doc =
  timestamp :: nat
  totalRecords :: nat
  totalChunks :: nat
  chunkSize :: nat

record chunk_doc =
  chunk_data :: "court list"
  chunkIndex :: nat
  recordCount :: nat

record firestore =
  metadata :: "metadata_doc option"
  chunk :: "nat \<Rightarrow> chunk_doc option"

datatype batch_write = SetMetadata metadata_doc | SetChunk nat chunk_doc | DeleteChunk nat

fun apply_write :: "firestore \<Rightarrow> batch_write \<Rightarrow> firestore" where
  "apply_write db (SetMetadata m) = db\<lparr>metadata := Some m\<rparr>"
| "apply_write db (SetChunk i d) = db\<lparr>chunk := (chunk db)(i \<mapsto> d)\<rparr>"
| "apply_write db (DeleteChunk i) = db\<lparr>chunk := (chunk db)(i := None)\<rparr>"

definition CHUNK_SIZE :: nat where
  "CHUNK_SIZE = 100"

text \<open>The loop \<open>for (let i = 0; i < data.length; i += CHUNK_SIZE)\<close>, from \<open>i\<close> on.\<close>

function split_chunks :: "court list \<Rightarrow> nat \<Rightarrow> court list list \<Rightarrow> court list list" where
  "split_chunks data i chunks =
     (if i < length data then
        split_chunks data (i + CHUNK_SIZE) (chunks @ [take CHUNK_SIZE (drop i data)])
      else chunks)"
  by pat_completeness auto
termination
  by (relation "measure (\<lambda>(data, i, chunks). length data - i)") (auto simp: CHUNK_SIZE_def)

declare split_chunks.simps [simp del]

definition save_batch :: "nat \<Rightarrow> court list \<Rightarrow> batch_write list" where
  "save_batch now data =
     (let chunks = split_chunks data 0 [] in
      [SetMetadata
         \<lparr>timestamp = now, totalRecords = length data, totalChunks = length chunks,
          chunkSize = CHUNK_SIZE\<rparr>]
      @ map (\<lambda>index. SetChunk index
               \<lparr>chunk_data = chunks ! index, chunkIndex = index,
                recordCount = length (chunks ! index)\<rparr>)
          [0..<length chunks]
      @ map DeleteChunk [length chunks..<length chunks + 10])"

definition saveCurrentData_chunked :: "bool \<Rightarrow> nat \<Rightarrow> court list \<Rightarrow> firestore \<Rightarrow> firestore" where
  "saveCurrentData_chunked commits now data db =
     (if commits then foldl apply_write db (save_batch now data) else db)"

text \<open>\<open>loadPreviousData\<close> of the same file: the chunks the metadata counts, in order.\<close>

definition loadPreviousData_chunked :: "firestore \<Rightarrow> court list option" where
  "loadPreviousData_chunked db =
     (case metadata db of
        None \<Rightarrow> None
      | Some m \<Rightarrow>
          Some (concat (map (\<lambda>i. case chunk db i of None \<Rightarrow> [] | Some d \<Rightarrow> chunk_data d)
                         [0..<totalChunks m])))"

definition empty_store :: firestore where
  "empty_store = \<lparr>metadata = None, chunk = (\<lambda>i. None)\<rparr>"

section \<open>Example data\<close>

text \<open>
  The slot of the scenarios: venue \<open>A\<close> on 2024-01-01 from 10:00 to 11:00, with a
  given count, and a host whose \<open>Date\<close> reads that day as Monday, 1 January.
\<close>

definition slot_A :: "jsval \<Rightarrow> court" where
  "slot_A n =
     \<lparr>Venue_Name_EN = JStr ''A'', District_Name_EN = Some '' Kowloon City '',
      Available_Date = JStr ''2024-01-01'', Session_Start_Time = JStr ''10:00'',
      Session_End_Time = JStr ''11:00'', Available_Courts = n\<rparr>"

definition host_Date :: "jsval \<Rightarrow> host_date" where
  "host_Date v = (if v = JStr ''2024-01-01'' then Local_Date 1 0 1 else Invalid_Date)"

definition slot_B :: "jsval \<Rightarrow> court" where
  "slot_B n =
     \<lparr>Venue_Name_EN = JStr ''B'', District_Name_EN = None,
      Available_Date = JStr ''2024-01-01'', Session_Start_Time = JStr ''10:00'',
      Session_End_Time = JStr ''11:00'', Available_Courts = n\<rparr>"

definition host_weekday :: "jsval \<Rightarrow> string" where
  "host_weekday v = (if v = JStr ''2024-01-01'' then ''Mon'' else ''Invalid Date'')"

text \<open>Two slots with different venues and start times and the same key.\<close>

definition slot_hyphen_venue :: "jsval \<Rightarrow> court" where
  "slot_hyphen_venue n =
     \<lparr>Venue_Name_EN = JStr ''A-2024-01-01'', District_Name_EN = None,
      Available_Date = JStr ''2024-01-02'', Session_Start_Time = JStr ''10:00'',
      Session_End_Time = JStr ''11:00'', Available_Courts = n\<rparr>"

definition slot_hyphen_start :: "jsval \<Rightarrow> court" where
  "slot_hyphen_start n =
     \<lparr>Venue_Name_EN = JStr ''A'', District_Name_EN = None,
      Available_Date = JStr ''2024-01-01'', Session_Start_Time = JStr ''2024-01-02-10:00'',
      Session_End_Time = JStr ''11:00'', Available_Courts = n\<rparr>"

text \<open>A change that carries a given message.\<close>

definition change_with :: "string \<Rightarrow> change" where
  "change_with m =
     \<lparr>type = new_availability, venue = JStr ''A'', district = None,
      date = JStr ''2024-01-01'', time = ''10:00-11:00'', currentCount = Fin 1,
      previousCount = Fin 0, increase = None, message = m\<rparr>"

section \<open>Facts about the conversions\<close>

lemma digit_of_digit_char: "d < 10 \<Longrightarrow> digit_of (digit_char d) = Some d"
proof -
  assume "d < 10"
  then have "d \<in> {0, 1, 2, 3, 4, 5, 6, 7, 8, 9}" by auto
  then show ?thesis by (auto simp: digit_of_def digit_char_def)
qed

lemma digit_char_in: "d < 10 \<Longrightarrow> digit_char d \<in> set ''0123456789''"
  unfolding digit_char_def by (rule nth_mem) simp

lemma nat_to_string_digits: "set (nat_to_string n) \<subseteq> set ''0123456789''"
proof (induction n rule: nat_to_string.induct)
  case (1 n)
  show ?case
  proof (cases "n < 10")
    case True
    then show ?thesis using digit_char_in [of n] by (subst nat_to_string.simps) simp
  next
    case False
    moreover have "digit_char (n mod 10) \<in> set ''0123456789''" by (rule digit_char_in) simp
    ultimately show ?thesis using 1 by (subst nat_to_string.simps) simp
  qed
qed

lemma nat_to_string_not_Nil: "nat_to_string n \<noteq> []"
  by (subst nat_to_string.simps) simp

lemma decimal_cases:
  assumes "c \<in> set ''0123456789''"
  obtains d where "d < 10" and "c = digit_char d"
proof -
  from assms obtain d where "d < length ''0123456789''" and "''0123456789'' ! d = c"
    unfolding in_set_conv_nth by blast
  then have "d < 10" and "c = digit_char d" by (simp_all add: digit_char_def)
  then show thesis by (rule that)
qed

lemma radix_digit_decimal: "c \<in> set ''0123456789'' \<Longrightarrow> radix_digit 10 c"
  by (erule decimal_cases) (simp add: radix_digit_def digit_of_digit_char)

lemma takeWhile_nat_to_string:
  "takeWhile (radix_digit 10) (nat_to_string n) = nat_to_string n"
proof -
  have "\<forall>c \<in> set (nat_to_string n). radix_digit 10 c"
    using nat_to_string_digits [of n] radix_digit_decimal by blast
  then show ?thesis by (simp add: takeWhile_eq_all_conv)
qed

lemma digits_value_snoc:
  "digits_value R (ds @ [c]) =
     digits_value R ds * R + (case digit_of c of None \<Rightarrow> 0 | Some d \<Rightarrow> d)"
  by (simp add: digits_value_def)

lemma digits_value_nat_to_string: "digits_value 10 (nat_to_string n) = n"
proof (induction n rule: nat_to_string.induct)
  case (1 n)
  show ?case
  proof (cases "n < 10")
    case True
    then show ?thesis
      by (subst nat_to_string.simps) (simp add: digits_value_def digit_of_digit_char)
  next
    case False
    have "digits_value 10 (nat_to_string n) =
            digits_value 10 (nat_to_string (n div 10) @ [digit_char (n mod 10)])"
      using False by (subst nat_to_string.simps) simp
    also have "\<dots> = (n div 10) * 10 + n mod 10"
      using 1 False by (simp add: digits_value_snoc digit_of_digit_char)
    finally show ?thesis by simp
  qed
qed

lemma WhiteSpace_not_Nil: "w \<in> set WhiteSpace \<Longrightarrow> w \<noteq> []"
  by (auto simp: WhiteSpace_def)

lemma leading_space_Cons:
  assumes "c \<notin> set (map hd WhiteSpace)"
  shows "leading_space (c # cs) = 0"
proof -
  have "\<not> prefix w (c # cs)" if w: "w \<in> set WhiteSpace" for w
  proof -
    obtain a as where eq: "w = a # as"
      using WhiteSpace_not_Nil [OF w] by (cases w) auto
    with w have "a \<in> set (map hd WhiteSpace)" by force
    with assms have "a \<noteq> c" by blast
    with eq show ?thesis by simp
  qed
  then have "filter (\<lambda>w. prefix w (c # cs)) WhiteSpace = []"
    by (simp add: filter_empty_conv)
  then show ?thesis by (simp add: leading_space_def)
qed

lemma trimStart_id: "leading_space s = 0 \<Longrightarrow> trimStart s = s"
  by (subst trimStart.simps) simp

lemma WhiteSpace_heads:
  "set (map hd WhiteSpace) =
     {CHR 0x09, CHR 0x0A, CHR 0x0B, CHR 0x0C, CHR 0x0D, CHR 0x20, CHR 0xC2, CHR 0xE1,
      CHR 0xE2, CHR 0xE3, CHR 0xEF}"
  by (simp add: WhiteSpace_def insert_commute)

lemma digit_char_not_space: "d < 10 \<Longrightarrow> digit_char d \<notin> set (map hd WhiteSpace)"
proof -
  assume "d < 10"
  then have "d \<in> {0, 1, 2, 3, 4, 5, 6, 7, 8, 9}" by auto
  then show ?thesis unfolding WhiteSpace_heads by (auto simp: digit_char_def)
qed

lemma decimal_not_space: "c \<in> set ''0123456789'' \<Longrightarrow> c \<notin> set (map hd WhiteSpace)"
proof -
  assume "c \<in> set ''0123456789''"
  then obtain d where "d < 10" and "c = digit_char d" by (rule decimal_cases)
  then show ?thesis using digit_char_not_space [of d] by blast
qed

lemma trimStart_nat_to_string: "trimStart (nat_to_string n) = nat_to_string n"
proof -
  obtain c cs where s: "nat_to_string n = c # cs"
    using nat_to_string_not_Nil [of n] by (cases "nat_to_string n") auto
  then have "c \<in> set ''0123456789''" using nat_to_string_digits [of n] by auto
  then have "leading_space (c # cs) = 0" by (intro leading_space_Cons decimal_not_space)
  then show ?thesis using s by (simp add: trimStart_id)
qed

lemma strip_sign_nat_to_string: "strip_sign (nat_to_string n) = (1, nat_to_string n)"
proof -
  obtain c cs where s: "nat_to_string n = c # cs"
    using nat_to_string_not_Nil [of n] by (cases "nat_to_string n") auto
  then have "c \<in> set ''0123456789''" using nat_to_string_digits [of n] by auto
  then have "c \<noteq> CHR ''-''" "c \<noteq> CHR ''+''" by auto
  then show ?thesis using s by (simp add: strip_sign_def)
qed

lemma strip_radix_nat_to_string: "strip_radix (nat_to_string n) = (10, nat_to_string n)"
proof -
  have "CHR ''x'' \<notin> set (nat_to_string n)" "CHR ''X'' \<notin> set (nat_to_string n)"
    using nat_to_string_digits [of n] by auto
  then have "\<not> prefix ''0x'' (nat_to_string n)" "\<not> prefix ''0X'' (nat_to_string n)"
    by (auto simp: prefix_def)
  then show ?thesis by (simp add: strip_radix_def)
qed

lemma parseInt_string_nat: "parseInt_string (nat_to_string n) = Fin (int n)"
  by (simp add: parseInt_string_def trimStart_nat_to_string strip_sign_nat_to_string
      strip_radix_nat_to_string takeWhile_nat_to_string digits_value_nat_to_string
      nat_to_string_not_Nil)

lemma parseInt_string_minus:
  "parseInt_string (CHR ''-'' # nat_to_string n) = Fin (- int n)"
proof -
  have "CHR ''-'' \<notin> set (map hd WhiteSpace)"
    unfolding WhiteSpace_heads by simp
  then have "leading_space (CHR ''-'' # nat_to_string n) = 0"
    by (rule leading_space_Cons)
  then have "trimStart (CHR ''-'' # nat_to_string n) = CHR ''-'' # nat_to_string n"
    by (rule trimStart_id)
  then show ?thesis
    by (simp add: parseInt_string_def strip_sign_def
      strip_radix_nat_to_string takeWhile_nat_to_string digits_value_nat_to_string
      nat_to_string_not_Nil)
qed

lemma parseInt_JNum: "parseInt (JNum n) = Fin n"
  by (simp add: parseInt_def int_to_string_def parseInt_string_nat parseInt_string_minus)

lemma parseInt_or_zero_JNum: "parseInt (or_zero (JNum n)) = Fin n"
  by (simp add: or_zero_def parseInt_JNum)


section \<open>Facts about the lookup and the loop\<close>

lemma check_court_append:
  "check_court nd pm acc c = acc @ check_court nd pm [] c"
  by (simp add: check_court_def Let_def split: option.splits)

lemma check_court_length: "length (check_court nd pm [] c) \<le> 1"
  by (simp add: check_court_def Let_def split: option.splits)

lemma foldl_check_court:
  "foldl (check_court nd pm) acc cs = acc @ concat (map (check_court nd pm []) cs)"
proof (induction cs arbitrary: acc)
  case Nil
  show ?case by simp
next
  case (Cons c cs)
  have "foldl (check_court nd pm) acc (c # cs) = foldl (check_court nd pm) (check_court nd pm acc c) cs"
    by simp
  also have "\<dots> = check_court nd pm acc c @ concat (map (check_court nd pm []) cs)"
    by (rule Cons.IH)
  also have "\<dots> = acc @ check_court nd pm [] c @ concat (map (check_court nd pm []) cs)"
    using check_court_append [of nd pm acc c] by simp
  finally show ?case by simp
qed

lemma previousMap_snoc:
  "previousMap (pd @ [p]) = (previousMap pd)(court_key p \<mapsto> p)"
  by (simp add: previousMap_def)

lemma previousMap_last:
  "previousMap pd k =
     (if filter (\<lambda>p. court_key p = k) pd = [] then None
      else Some (last (filter (\<lambda>p. court_key p = k) pd)))"
proof (induction pd rule: rev_induct)
  case Nil
  show ?case by (simp add: previousMap_def)
next
  case (snoc p pd)
  show ?case
  proof (cases "court_key p = k")
    case True
    then show ?thesis by (simp add: previousMap_snoc)
  next
    case False
    then show ?thesis using snoc.IH by (simp add: previousMap_snoc)
  qed
qed

lemma previousMap_distinct:
  assumes "distinct (map court_key pd)" and "c \<in> set pd"
  shows "previousMap pd (court_key c) = Some c"
proof -
  have "filter (\<lambda>p. court_key p = court_key c) pd = [c]"
    using assms
  proof (induction pd)
    case Nil
    then show ?case by simp
  next
    case (Cons a pd)
    show ?case
    proof (cases "a = c")
      case True
      with Cons.prems have "court_key c \<notin> court_key ` set pd" by simp
      then have "\<forall>p \<in> set pd. court_key p \<noteq> court_key c" by (metis image_eqI)
      then have "filter (\<lambda>p. court_key p = court_key c) pd = []" by (simp add: filter_empty_conv)
      with True show ?thesis by simp
    next
      case False
      with Cons.prems have "c \<in> set pd" "court_key a \<noteq> court_key c" by auto
      with Cons show ?thesis by simp
    qed
  qed
  then show ?thesis by (simp add: previousMap_last)
qed

section \<open>Facts about a single comparison\<close>

lemma detectChanges_concat:
  "detectChanges nd cur (Some pd) = concat (map (check_court nd (previousMap pd) []) cur)"
  by (simp add: detectChanges_def foldl_check_court)

lemma js_gt_irrefl: "\<not> js_gt a a"
  by (cases a) simp_all

lemma js_gt_not_zero: "js_gt a (Fin 0) \<Longrightarrow> \<not> js_strict_eq a (Fin 0)"
  by (cases a) simp_all

lemma check_court_self:
  "pm (court_key c) = Some c \<Longrightarrow> check_court nd pm [] c = []"
  by (simp add: check_court_def Let_def js_gt_irrefl js_gt_not_zero)

lemma previousMap_single: "previousMap [p] = [court_key p \<mapsto> p]"
  by (simp add: previousMap_def)

lemma previousMap_pair:
  "previousMap [p, q] = [court_key p \<mapsto> p, court_key q \<mapsto> q]"
  by (simp add: previousMap_def)

lemma key_A: "court_key (slot_A n) = ''A-2024-01-01-10:00''"
  by (simp add: court_key_def slot_A_def)

lemma Available_Courts_slot_A: "Available_Courts (slot_A n) = n"
  by (simp add: slot_A_def)

lemma detectChanges_single:
  "detectChanges nd [c] (Some pd) = check_court nd (previousMap pd) [] c"
  by (simp add: detectChanges_concat)

lemma check_court_fields:
  "ch \<in> set (check_court nd pm [] c) \<Longrightarrow>
     venue ch = Venue_Name_EN c \<and> date ch = Available_Date c \<and> time ch = time_range c
     \<and> district ch = map_option trim (District_Name_EN c)"
  by (auto simp: check_court_def Let_def split: option.splits if_splits)

lemma check_court_invariant:
  assumes "ch \<in> set (check_court nd pm [] cur)"
  shows "\<exists>c p. currentCount ch = Fin c \<and> previousCount ch = Fin p \<and> p < c \<and> 0 \<le> p \<and> 1 \<le> c
           \<and> (type ch = new_availability \<longleftrightarrow> p = 0)
           \<and> (type ch = increased_availability \<longleftrightarrow> 0 < p)"
proof (cases "pm (court_key cur)")
  case None
  with assms show ?thesis by (simp add: check_court_def)
next
  case (Some prev)
  show ?thesis
  proof (cases "parseInt (or_zero (Available_Courts cur))")
    case NaN
    with Some assms show ?thesis by (simp add: check_court_def Let_def)
  next
    case c: (Fin c)
    show ?thesis
    proof (cases "parseInt (or_zero (Available_Courts prev))")
      case NaN
      with Some c assms show ?thesis by (simp add: check_court_def Let_def)
    next
      case p: (Fin p)
      with Some c assms show ?thesis
        by (auto simp: check_court_def Let_def split: if_splits)
    qed
  qed
qed






lemma key_parts_inj:
  assumes "v @ ''-'' @ d @ ''-'' @ s = v' @ ''-'' @ d' @ ''-'' @ s'"
    and "length d = length d'" and "length s = length s'"
  shows "v = v' \<and> d = d' \<and> s = s'"
proof -
  have "length (''-'' @ d @ ''-'' @ s) = length (''-'' @ d' @ ''-'' @ s')"
    using assms(2,3) by simp
  with assms(1) have "v = v'" and "''-'' @ d @ ''-'' @ s = ''-'' @ d' @ ''-'' @ s'"
    using append_eq_append_conv [of "''-'' @ d @ ''-'' @ s" "''-'' @ d' @ ''-'' @ s'" v v']
    by simp_all
  then have "d @ ''-'' @ s = d' @ ''-'' @ s'" by simp
  with assms(2) have "d = d'" and "s = s'" by simp_all
  with \<open>v = v'\<close> show ?thesis by simp
qed

lemma previousMap_key: "previousMap pd k = Some p \<Longrightarrow> court_key p = k"
proof -
  assume a: "previousMap pd k = Some p"
  let ?ps = "filter (\<lambda>p. court_key p = k) pd"
  from a have ne: "?ps \<noteq> []" and "p = last ?ps"
    by (simp_all add: previousMap_last split: if_splits)
  then have "p \<in> set ?ps" using last_in_set by metis
  then show ?thesis by simp
qed

lemma court_key_same_tuple:
  "Venue_Name_EN c = Venue_Name_EN p \<Longrightarrow> Available_Date c = Available_Date p \<Longrightarrow>
     Session_Start_Time c = Session_Start_Time p \<Longrightarrow> court_key c = court_key p"
  by (simp add: court_key_def)

lemma court_key_inj:
  assumes "Venue_Name_EN c = JStr v" "Available_Date c = JStr d" "Session_Start_Time c = JStr s"
    and "Venue_Name_EN p = JStr v'" "Available_Date p = JStr d'" "Session_Start_Time p = JStr s'"
    and "length d = length d'" "length s = length s'"
    and "court_key c = court_key p"
  shows "v = v' \<and> d = d' \<and> s = s'"
proof -
  have "v @ ''-'' @ d @ ''-'' @ s = v' @ ''-'' @ d' @ ''-'' @ s'"
    using assms(1-6,9) by (simp add: court_key_def)
  then show ?thesis using assms(7,8) by (rule key_parts_inj)
qed

lemma detectChanges_lookup:
  "detectChanges nd [c] (Some pd) =
     (case previousMap pd (court_key c) of
        None \<Rightarrow> []
      | Some p \<Rightarrow> detectChanges nd [c] (Some [p]))"
proof (cases "previousMap pd (court_key c)")
  case None
  then show ?thesis by (simp add: detectChanges_single check_court_def)
next
  case (Some p)
  then have "court_key p = court_key c" by (rule previousMap_key)
  then have "previousMap [p] (court_key c) = Some p" by (simp add: previousMap_single)
  with Some show ?thesis by (simp add: detectChanges_single check_court_def)
qed

lemma key_hyphen:
  "court_key (slot_hyphen_start n) = court_key (slot_hyphen_venue m)"
  by (simp add: court_key_def slot_hyphen_start_def slot_hyphen_venue_def)

lemma new_change_A:
  "detectChanges host_Date [slot_A (JNum 2)] (Some [slot_A (JNum 0)]) =
     [\<lparr>type = new_availability, venue = JStr ''A'',
       district = map_option trim (District_Name_EN (slot_A (JNum 2))),
       date = JStr ''2024-01-01'', time = time_range (slot_A (JNum 2)),
       currentCount = Fin 2, previousCount = Fin 0, increase = None,
       message = message_head host_Date (slot_A (JNum 2)) (Fin 2) @ ''0)''\<rparr>]"
  by (simp add: detectChanges_single previousMap_single key_A check_court_def Let_def
      Available_Courts_slot_A parseInt_or_zero_JNum) (simp add: slot_A_def)

section \<open>Facts about the cycle and the chunked store\<close>








lemma chunk_count_aux:
  assumes "0 < (k :: nat)"
  shows "Suc ((k - 100 + 99) div 100) = (k + 99) div 100"
proof -
  have "(k + 99) div 100 = Suc ((k + 99 - 100) div 100)"
    using assms by (intro le_div_geq) simp_all
  moreover have "(k + 99 - 100) div 100 = (k - 100 + 99) div 100"
  proof (cases "100 \<le> k")
    case True
    then obtain m where "k = 100 + m" using le_Suc_ex by blast
    then show ?thesis by simp
  next
    case False
    then have "k + 99 - 100 < 100" and "k - 100 + 99 < 100" by simp_all
    then show ?thesis by simp
  qed
  ultimately show ?thesis by simp
qed

lemma chunk_count_step:
  assumes "i < (n :: nat)"
  shows "Suc ((n - (i + 100) + 99) div 100) = (n - i + 99) div 100"
  using assms chunk_count_aux [of "n - i"] by simp

lemma length_split_chunks:
  "length (split_chunks ds i acc) = length acc + (length ds - i + 99) div 100"
proof (induction ds i acc rule: split_chunks.induct)
  case (1 ds i acc)
  show ?case
  proof (cases "i < length ds")
    case True
    then have "length (split_chunks ds i acc) =
        length (split_chunks ds (i + CHUNK_SIZE) (acc @ [take CHUNK_SIZE (drop i ds)]))"
      by (subst split_chunks.simps) simp
    also have "\<dots> = length acc + 1 + (length ds - (i + 100) + 99) div 100"
      using 1 True by (simp add: CHUNK_SIZE_def)
    also have "\<dots> = length acc + (length ds - i + 99) div 100"
      using True by (simp add: chunk_count_step)
    finally show ?thesis .
  next
    case False
    then show ?thesis by (subst split_chunks.simps) simp
  qed
qed

lemma chunk_after_deletes:
  "chunk (foldl apply_write db (map DeleteChunk [a..<a + n])) i =
     (if a \<le> i \<and> i < a + n then None else chunk db i)"
  by (induction n) auto

lemma metadata_after_deletes:
  "metadata (foldl apply_write db (map DeleteChunk [a..<b])) = metadata db"
  by (induction b) auto

lemma chunk_after_sets:
  "chunk (foldl apply_write db (map (\<lambda>k. SetChunk k (f k)) [0..<n])) i =
     (if i < n then Some (f i) else chunk db i)"
  by (induction n) auto

lemma metadata_after_sets:
  "metadata (foldl apply_write db (map (\<lambda>k. SetChunk k (f k)) [0..<n])) = metadata db"
  by (induction n) auto

lemma chunk_after_save:
  "chunk (saveCurrentData_chunked True now ds db) i =
     (let chunks = split_chunks ds 0 [] in
      if i < length chunks then
        Some \<lparr>chunk_data = chunks ! i, chunkIndex = i, recordCount = length (chunks ! i)\<rparr>
      else if i < length chunks + 10 then None
      else chunk db i)"
  by (simp add: saveCurrentData_chunked_def save_batch_def Let_def chunk_after_deletes
      chunk_after_sets)

lemma metadata_after_save:
  "metadata (saveCurrentData_chunked True now ds db) =
     Some \<lparr>timestamp = now, totalRecords = length ds,
           totalChunks = length (split_chunks ds 0 []), chunkSize = CHUNK_SIZE\<rparr>"
  by (simp add: saveCurrentData_chunked_def save_batch_def Let_def metadata_after_deletes
      metadata_after_sets)

lemma chunk_kept_after_save:
  "length (split_chunks ds 0 []) + 10 \<le> i \<Longrightarrow>
     chunk (saveCurrentData_chunked True now ds db) i = chunk db i"
  by (simp add: chunk_after_save Let_def)

lemma chunk_written_by_save:
  "i < length (split_chunks ds 0 []) \<Longrightarrow>
     chunk (saveCurrentData_chunked True now ds db) i \<noteq> None"
  by (simp add: chunk_after_save Let_def)

lemma chunks_1200: "length (split_chunks (replicate 1200 c) 0 []) = 12"
  by (simp add: length_split_chunks)

lemma chunks_100: "length (split_chunks (replicate 100 c) 0 []) = 1"
  by (simp add: length_split_chunks)

lemma concat_split_chunks:
  "concat (split_chunks ds i acc) = concat acc @ drop i ds"
proof (induction ds i acc rule: split_chunks.induct)
  case (1 ds i acc)
  show ?case
  proof (cases "i < length ds")
    case True
    then have "concat (split_chunks ds i acc)
        = concat (split_chunks ds (i + CHUNK_SIZE) (acc @ [take CHUNK_SIZE (drop i ds)]))"
      by (subst split_chunks.simps) simp
    also have "\<dots> = concat (acc @ [take CHUNK_SIZE (drop i ds)]) @ drop (i + CHUNK_SIZE) ds"
      using 1 True by simp
    also have "\<dots> = concat acc @ (take CHUNK_SIZE (drop i ds) @ drop CHUNK_SIZE (drop i ds))"
      by (simp add: add.commute)
    also have "\<dots> = concat acc @ drop i ds"
      by (simp only: append_take_drop_id)
    finally show ?thesis .
  next
    case False
    then show ?thesis by (subst split_chunks.simps) simp
  qed
qed

lemma load_after_save:
  "loadPreviousData_chunked (saveCurrentData_chunked True now ds db) = Some ds"
proof -
  let ?chunks = "split_chunks ds 0 []"
  have "map (\<lambda>i. case chunk (saveCurrentData_chunked True now ds db) i of
                     None \<Rightarrow> [] | Some d \<Rightarrow> chunk_data d) [0..<length ?chunks]
        = map (\<lambda>i. ?chunks ! i) [0..<length ?chunks]"
    by (intro map_cong refl) (simp add: chunk_after_save Let_def)
  also have "\<dots> = ?chunks" by (rule map_nth)
  finally show ?thesis
    by (simp add: loadPreviousData_chunked_def metadata_after_save concat_split_chunks)
qed

lemma cleanup_within_ten:
  assumes "\<forall>i \<ge> n. chunk db i = None"
    and "n \<le> length (split_chunks ds 0 []) + 10"
  shows "\<forall>i \<ge> length (split_chunks ds 0 []). chunk (saveCurrentData_chunked True now ds db) i = None"
  using assms by (simp add: chunk_after_save Let_def)

section \<open>Facts about \<open>monitor-courts.js\<close>\<close>

lemma currentMap_snoc:
  "currentMap (cur @ [c]) = map_set (currentMap cur) (court_key c) c"
  by (simp add: currentMap_def)

lemma map_set_keys:
  "map fst (map_set m k v) = (if k \<in> set (map fst m) then map fst m else map fst m @ [k])"
  by (induction m k v rule: map_set.induct) auto

lemma map_set_lookup: "map_of (map_set m k v) = (map_of m)(k \<mapsto> v)"
  by (induction m k v rule: map_set.induct) (auto simp: fun_upd_twist)

lemma map_set_fresh: "k \<notin> set (map fst m) \<Longrightarrow> map_set m k v = m @ [(k, v)]"
  by (induction m k v rule: map_set.induct) auto

lemma currentMap_keys:
  "map fst (currentMap cur) = rev (remdups (rev (map court_key cur)))"
proof (induction cur rule: rev_induct)
  case Nil
  show ?case by (simp add: currentMap_def)
next
  case (snoc c cur)
  then show ?case by (simp add: currentMap_snoc map_set_keys)
qed

lemma currentMap_lookup: "map_of (currentMap cur) = previousMap cur"
proof (induction cur rule: rev_induct)
  case Nil
  show ?case by (simp add: currentMap_def previousMap_def)
next
  case (snoc c cur)
  then show ?case by (simp add: currentMap_snoc map_set_lookup previousMap_snoc)
qed

lemma entries_by_key:
  "(\<And>k v. (k, v) \<in> set m \<Longrightarrow> v = f k) \<Longrightarrow> m = map (\<lambda>k. (k, f k)) (map fst m)"
  by (induction m) auto

lemma currentMap_entries:
  "currentMap cur =
     map (\<lambda>k. (k, the (previousMap cur k))) (rev (remdups (rev (map court_key cur))))"
proof -
  have d: "distinct (map fst (currentMap cur))"
    by (simp add: currentMap_keys)
  have "v = the (previousMap cur k)" if "(k, v) \<in> set (currentMap cur)" for k v
    using map_of_is_SomeI [OF d that] by (simp add: currentMap_lookup [symmetric])
  then have "currentMap cur = map (\<lambda>k. (k, the (previousMap cur k))) (map fst (currentMap cur))"
    by (rule entries_by_key)
  then show ?thesis by (simp only: currentMap_keys)
qed

lemma currentMap_distinct:
  "distinct (map court_key cur) \<Longrightarrow> currentMap cur = map (\<lambda>c. (court_key c, c)) cur"
proof (induction cur rule: rev_induct)
  case Nil
  show ?case by (simp add: currentMap_def)
next
  case (snoc c cur)
  then have "court_key c \<notin> set (map fst (currentMap cur))"
    by (simp add: currentMap_keys)
  with snoc show ?case by (simp add: currentMap_snoc map_set_fresh)
qed

lemma check_entry_append: "check_entry pm acc e = acc @ check_entry pm [] e"
  by (cases e) (simp add: check_entry_def Let_def split: option.splits)

lemma check_entry_length: "length (check_entry pm [] e) \<le> 1"
  by (cases e) (simp add: check_entry_def Let_def split: option.splits)

lemma foldl_check_entry:
  "foldl (check_entry pm) acc es = acc @ concat (map (check_entry pm []) es)"
proof (induction es arbitrary: acc)
  case Nil
  show ?case by simp
next
  case (Cons e es)
  show ?case
    using Cons.IH [of "check_entry pm acc e"] check_entry_append [of pm acc e] by simp
qed

lemma detectChanges_basic_concat:
  "detectChanges_basic cur (Some pd) =
     concat (map (check_entry (previousMap pd) []) (currentMap cur))"
  by (simp add: detectChanges_basic_def foldl_check_entry)

lemma detectChanges_basic_single:
  "detectChanges_basic [c] (Some pd) = check_entry (previousMap pd) [] (court_key c, c)"
  by (simp add: detectChanges_basic_concat currentMap_def)

lemma detectChanges_basic_keys:
  "detectChanges_basic cur prev =
     concat (map (\<lambda>k. detectChanges_basic [the (previousMap cur k)] prev)
               (rev (remdups (rev (map court_key cur)))))"
proof (cases prev)
  case None
  then show ?thesis by (simp add: detectChanges_basic_def)
next
  case (Some pd)
  have "check_entry (previousMap pd) [] (k, the (previousMap cur k))
          = detectChanges_basic [the (previousMap cur k)] (Some pd)"
    if "k \<in> set (map court_key cur)" for k
  proof -
    from that have "k \<in> set (map fst (currentMap cur))" by (simp add: currentMap_keys)
    then obtain v where "map_of (currentMap cur) k = Some v"
      by (metis list.set_map map_of_eq_None_iff not_Some_eq)
    then have "previousMap cur k = Some v" by (simp add: currentMap_lookup)
    then have "court_key (the (previousMap cur k)) = k"
      using previousMap_key [of cur k v] by simp
    then show ?thesis by (simp add: detectChanges_basic_single)
  qed
  then have eq1: "map (\<lambda>k. check_entry (previousMap pd) [] (k, the (previousMap cur k)))
               (rev (remdups (rev (map court_key cur))))
           = map (\<lambda>k. detectChanges_basic [the (previousMap cur k)] (Some pd))
               (rev (remdups (rev (map court_key cur))))"
    by (intro map_cong refl) simp
  have eq2: "detectChanges_basic cur (Some pd)
      = concat (map (\<lambda>k. check_entry (previousMap pd) [] (k, the (previousMap cur k)))
                  (rev (remdups (rev (map court_key cur)))))"
    by (simp only: detectChanges_basic_concat) (simp add: currentMap_entries o_def)
  show ?thesis by (simp only: Some eq2 eq1)
qed

lemma detectChanges_basic_distinct:
  assumes "distinct (map court_key cur)"
  shows "detectChanges_basic cur prev = concat (map (\<lambda>c. detectChanges_basic [c] prev) cur)"
proof (cases prev)
  case None
  then show ?thesis by (simp add: detectChanges_basic_def)
next
  case (Some pd)
  then show ?thesis
    using assms
    by (simp add: detectChanges_basic_concat currentMap_distinct detectChanges_basic_single o_def)
qed

lemma key_B: "court_key (slot_B n) = ''B-2024-01-01-10:00''"
  by (simp add: court_key_def slot_B_def)

lemma Available_Courts_slot_B: "Available_Courts (slot_B n) = n"
  by (simp add: slot_B_def)

lemma basic_example:
  "detectChanges_basic [slot_A (JNum 2), slot_B (JNum 1), slot_A (JNum 3)]
     (Some [slot_A (JNum 0), slot_B (JNum 0)]) =
   [\<lparr>type = new_availability, venue = JStr ''A'', district = Some (trim '' Kowloon City ''),
     date = JStr ''2024-01-01'', time = time_range (slot_A (JNum 3)),
     courts = Fin 3, previous = Fin 0\<rparr>,
    \<lparr>type = new_availability, venue = JStr ''B'', district = None,
     date = JStr ''2024-01-01'', time = time_range (slot_B (JNum 1)),
     courts = Fin 1, previous = Fin 0\<rparr>]"
  by (simp add: detectChanges_basic_concat currentMap_def key_A key_B previousMap_pair
      check_entry_def Let_def Available_Courts_slot_A Available_Courts_slot_B
      parseInt_or_zero_JNum)
     (simp add: slot_A_def slot_B_def)

lemma basic_single_A:
  "map courts (detectChanges_basic [slot_A (JNum n)] (Some [slot_A (JNum 0), slot_B (JNum 0)]))
     = (if 0 < n then [Fin n] else [])"
  by (simp add: detectChanges_basic_single key_A key_B previousMap_pair
      check_entry_def Let_def Available_Courts_slot_A Available_Courts_slot_B
      parseInt_or_zero_JNum)

lemma basic_single_B:
  "map courts (detectChanges_basic [slot_B (JNum n)] (Some [slot_A (JNum 0), slot_B (JNum 0)]))
     = (if 0 < n then [Fin n] else [])"
  by (simp add: detectChanges_basic_single key_A key_B previousMap_pair
      check_entry_def Let_def Available_Courts_slot_A Available_Courts_slot_B
      parseInt_or_zero_JNum)

lemma basic_new_A:
  "detectChanges_basic [slot_A (JNum 2)] (Some [slot_A (JNum 0)]) =
     [\<lparr>type = new_availability, venue = JStr ''A'', district = Some (trim '' Kowloon City ''),
       date = JStr ''2024-01-01'', time = time_range (slot_A (JNum 2)),
       courts = Fin 2, previous = Fin 0\<rparr>]"
  by (simp add: detectChanges_basic_single key_A previousMap_single
      check_entry_def Let_def Available_Courts_slot_A parseInt_or_zero_JNum)
     (simp add: slot_A_def)

lemma render_change_string:
  "date ch = JStr d \<Longrightarrow> \<exists>m. render_change w msg ch = Inr m"
  by (simp add: render_change_def Let_def)

lemma main_basic_printed:
  assumes "snd (main_basic w http prev) \<noteq> []"
  shows "\<exists>cur. http = Some cur \<and> detectChanges_basic cur prev \<noteq> []"
proof (cases http)
  case None
  with assms show ?thesis by (simp add: main_basic_def)
next
  case (Some cur)
  with assms have "detectChanges_basic cur prev \<noteq> []"
    by (auto simp: main_basic_def Let_def split: if_splits)
  with Some show ?thesis by simp
qed

lemma check_entry_self:
  "pm k = Some v \<Longrightarrow> check_entry pm [] (k, v) = []"
  by (simp add: check_entry_def Let_def js_gt_irrefl js_gt_not_zero)

lemma detectChanges_basic_unchanged: "detectChanges_basic D (Some D) = []"
proof -
  have "check_entry (previousMap D) [] e = []" if "e \<in> set (currentMap D)" for e
  proof -
    obtain k v where e: "e = (k, v)" by (cases e)
    have "distinct (map fst (currentMap D))" by (simp add: currentMap_keys)
    with that e have "map_of (currentMap D) k = Some v" by simp
    then have "previousMap D k = Some v" by (simp add: currentMap_lookup)
    with e show ?thesis by (simp add: check_entry_self)
  qed
  then show ?thesis by (simp add: detectChanges_basic_concat)
qed

lemma detectChanges_basic_lookup:
  "detectChanges_basic [c] (Some pd) =
     (case previousMap pd (court_key c) of
        None \<Rightarrow> []
      | Some p \<Rightarrow> detectChanges_basic [c] (Some [p]))"
proof (cases "previousMap pd (court_key c)")
  case None
  then show ?thesis by (simp add: detectChanges_basic_single check_entry_def)
next
  case (Some p)
  then have "court_key p = court_key c" by (rule previousMap_key)
  then have "previousMap [p] (court_key c) = Some p" by (simp add: previousMap_single)
  with Some show ?thesis by (simp add: detectChanges_basic_single check_entry_def)
qed

section \<open>Identical snapshots\<close>

text \<open>
  C1 (as amended). For every dataset \<open>D\<close> in which no two records have the same key,
  \<open>detectChanges D D\<close> is the empty list. The claim as stated also covers datasets
  with repeated keys; there every record is compared with the last record of its key,
  and an earlier record with a larger count is reported as an increase.
\<close>

theorem detectChanges_unchanged:
  assumes "distinct (map court_key D)"
  shows "detectChanges nd D (Some D) = []"
proof -
  have "check_court nd (previousMap D) [] c = []" if "c \<in> set D" for c
    using assms that by (intro check_court_self previousMap_distinct)
  then show ?thesis by (simp add: detectChanges_concat)
qed

theorem detectChanges_unchanged_witness:
  "distinct (map court_key [slot_A (JNum 2)])
   \<and> detectChanges host_Date [slot_A (JNum 2)] (Some [slot_A (JNum 2)]) = []"
  using detectChanges_unchanged [of "[slot_A (JNum 2)]" host_Date] by simp

text \<open>
  The dataset holds the slot of venue \<open>A\<close> twice, with 2 courts and then with 1 court.
  Compared with itself it yields one \<open>increased_availability\<close> change.
\<close>

theorem detectChanges_unchanged_counterexample:
  "detectChanges host_Date [slot_A (JNum 2), slot_A (JNum 1)]
       (Some [slot_A (JNum 2), slot_A (JNum 1)]) \<noteq> []
   \<and> map type
        (detectChanges host_Date [slot_A (JNum 2), slot_A (JNum 1)]
           (Some [slot_A (JNum 2), slot_A (JNum 1)])) = [increased_availability]"
  by (simp add: detectChanges_concat previousMap_pair key_A check_court_def Let_def
      Available_Courts_slot_A parseInt_or_zero_JNum)

section \<open>Parsing the counts\<close>




section \<open>Matching by key\<close>

text \<open>
  C3 (as amended). In every variant a current slot that is compared is compared with
  the last previous slot whose key string \<open>`${venue}-${date}-${sessionStart}`\<close>
  equals its own, and with no other.
  Slots that agree on venue, date and start time have the same key. Slots with the same
  key agree on the three when these are strings, the dates have the same length and the
  start times have the same length (as ISO dates and \<open>HH:MM\<close> times have). District,
  end time and count have no part in the key.
\<close>

theorem matching_by_key:
  "detectChanges nd [c] (Some pd) =
     (case previousMap pd (court_key c) of
        None \<Rightarrow> []
      | Some p \<Rightarrow> detectChanges nd [c] (Some [p]))
   \<and> detectChanges_basic [c] (Some pd) =
     (case previousMap pd (court_key c) of
        None \<Rightarrow> []
      | Some p \<Rightarrow> detectChanges_basic [c] (Some [p]))
   \<and> previousMap pd k =
       (if filter (\<lambda>q. court_key q = k) pd = [] then None
        else Some (last (filter (\<lambda>q. court_key q = k) pd)))
   \<and> (Venue_Name_EN c = Venue_Name_EN p \<and> Available_Date c = Available_Date p
        \<and> Session_Start_Time c = Session_Start_Time p
       \<longrightarrow> court_key c = court_key p)
   \<and> (Venue_Name_EN c = JStr v \<and> Available_Date c = JStr d \<and> Session_Start_Time c = JStr s
        \<and> Venue_Name_EN p = JStr v' \<and> Available_Date p = JStr d' \<and> Session_Start_Time p = JStr s'
        \<and> length d = length d' \<and> length s = length s' \<and> court_key c = court_key p
       \<longrightarrow> v = v' \<and> d = d' \<and> s = s')
   \<and> court_key (c\<lparr>District_Name_EN := dn, Session_End_Time := e, Available_Courts := n\<rparr>)
       = court_key c"
proof -
  have "court_key (c\<lparr>District_Name_EN := dn, Session_End_Time := e, Available_Courts := n\<rparr>)
          = court_key c"
    by (simp add: court_key_def)
  then show ?thesis
    using detectChanges_lookup [of nd c pd] detectChanges_basic_lookup [of c pd]
      previousMap_last [of pd k]
      court_key_same_tuple [of c p] court_key_inj [of c v d s p v' d' s']
    by blast
qed

theorem matching_by_key_witness:
  "Venue_Name_EN (slot_A (JNum 2)) = JStr ''A'' \<and> Venue_Name_EN (slot_A (JNum 0)) = JStr ''A''
   \<and> Available_Date (slot_A (JNum 2)) = JStr ''2024-01-01''
   \<and> Available_Date (slot_A (JNum 0)) = JStr ''2024-01-01''
   \<and> Session_Start_Time (slot_A (JNum 2)) = JStr ''10:00''
   \<and> Session_Start_Time (slot_A (JNum 0)) = JStr ''10:00''
   \<and> court_key (slot_A (JNum 2)) = court_key (slot_A (JNum 0))
   \<and> previousMap [slot_A (JNum 1), slot_A (JNum 0)] (court_key (slot_A (JNum 2)))
       = Some (slot_A (JNum 0))
   \<and> detectChanges host_Date [slot_A (JNum 2)] (Some [slot_A (JNum 1), slot_A (JNum 0)])
       = detectChanges host_Date [slot_A (JNum 2)] (Some [slot_A (JNum 0)])"
proof -
  note m =
    matching_by_key [of host_Date "slot_A (JNum 2)" "[slot_A (JNum 1), slot_A (JNum 0)]"
      "court_key (slot_A (JNum 2))" "slot_A (JNum 0)" "''A''" "''2024-01-01''" "''10:00''"
      "''A''" "''2024-01-01''" "''10:00''"]
  have fields:
    "Venue_Name_EN (slot_A (JNum 2)) = JStr ''A''" "Venue_Name_EN (slot_A (JNum 0)) = JStr ''A''"
    "Available_Date (slot_A (JNum 2)) = JStr ''2024-01-01''"
    "Available_Date (slot_A (JNum 0)) = JStr ''2024-01-01''"
    "Session_Start_Time (slot_A (JNum 2)) = JStr ''10:00''"
    "Session_Start_Time (slot_A (JNum 0)) = JStr ''10:00''"
    by (simp_all add: slot_A_def)
  from m fields have key: "court_key (slot_A (JNum 2)) = court_key (slot_A (JNum 0))"
    by simp
  from m have "previousMap [slot_A (JNum 1), slot_A (JNum 0)] (court_key (slot_A (JNum 2)))
      = (if filter (\<lambda>q. court_key q = court_key (slot_A (JNum 2)))
              [slot_A (JNum 1), slot_A (JNum 0)] = [] then None
         else Some (last (filter (\<lambda>q. court_key q = court_key (slot_A (JNum 2)))
              [slot_A (JNum 1), slot_A (JNum 0)])))"
    by blast
  then have look: "previousMap [slot_A (JNum 1), slot_A (JNum 0)] (court_key (slot_A (JNum 2)))
      = Some (slot_A (JNum 0))"
    by (simp add: key_A)
  from m have "detectChanges host_Date [slot_A (JNum 2)] (Some [slot_A (JNum 1), slot_A (JNum 0)])
      = (case previousMap [slot_A (JNum 1), slot_A (JNum 0)] (court_key (slot_A (JNum 2))) of
           None \<Rightarrow> []
         | Some p \<Rightarrow> detectChanges host_Date [slot_A (JNum 2)] (Some [p]))"
    by blast
  with look have "detectChanges host_Date [slot_A (JNum 2)] (Some [slot_A (JNum 1), slot_A (JNum 0)])
      = detectChanges host_Date [slot_A (JNum 2)] (Some [slot_A (JNum 0)])"
    by simp
  with fields key look show ?thesis by simp
qed

text \<open>
  Venue \<open>A-2024-01-01\<close> on 2024-01-02 at \<open>10:00\<close> and venue \<open>A\<close> on 2024-01-01
  at \<open>2024-01-02-10:00\<close> differ in venue, date and start time and have one key; the
  second is reported as new availability against the first.
\<close>

theorem matching_by_key_counterexample:
  "Venue_Name_EN (slot_hyphen_start (JNum 2)) \<noteq> Venue_Name_EN (slot_hyphen_venue (JNum 0))
   \<and> Available_Date (slot_hyphen_start (JNum 2)) \<noteq> Available_Date (slot_hyphen_venue (JNum 0))
   \<and> Session_Start_Time (slot_hyphen_start (JNum 2))
       \<noteq> Session_Start_Time (slot_hyphen_venue (JNum 0))
   \<and> map type
        (detectChanges host_Date [slot_hyphen_start (JNum 2)] (Some [slot_hyphen_venue (JNum 0)]))
       = [new_availability]"
proof -
  have "map type
          (detectChanges host_Date [slot_hyphen_start (JNum 2)] (Some [slot_hyphen_venue (JNum 0)]))
        = [new_availability]"
    by (simp add: detectChanges_single previousMap_single key_hyphen check_court_def Let_def)
       (simp add: slot_hyphen_start_def slot_hyphen_venue_def parseInt_or_zero_JNum)
  then show ?thesis by (simp add: slot_hyphen_start_def slot_hyphen_venue_def)
qed

section \<open>Classification of an increase\<close>




section \<open>Order of the changes\<close>

text \<open>
  C5 (as amended). In the enhanced variants the changes of a dataset are the changes
  of its elements, one element after the other in the order of the dataset; an element
  gives at most one change, and that change carries the venue, date and time range of
  the element. In \<open>monitor-courts.js\<close> the loop runs over a \<open>Map\<close> of the current
  dataset: once for every key, in the order in which the keys first occur, on the last
  element of the key. For a dataset without a repeated key this is once for every
  element, in the order of the dataset.
\<close>

theorem detectChanges_order:
  "detectChanges nd cur prev = concat (map (\<lambda>c. detectChanges nd [c] prev) cur)
   \<and> (\<forall>c. length (detectChanges nd [c] prev) \<le> 1)
   \<and> (\<forall>c. \<forall>ch \<in> set (detectChanges nd [c] prev).
         venue ch = Venue_Name_EN c \<and> date ch = Available_Date c \<and> time ch = time_range c)
   \<and> detectChanges_basic cur prev =
        concat (map (\<lambda>k. detectChanges_basic [the (previousMap cur k)] prev)
                  (rev (remdups (rev (map court_key cur)))))
   \<and> (distinct (map court_key cur) \<longrightarrow>
        detectChanges_basic cur prev = concat (map (\<lambda>c. detectChanges_basic [c] prev) cur))
   \<and> (\<forall>c. length (detectChanges_basic [c] prev) \<le> 1)"
proof -
  have enhanced:
    "detectChanges nd cur prev = concat (map (\<lambda>c. detectChanges nd [c] prev) cur)
     \<and> (\<forall>c. length (detectChanges nd [c] prev) \<le> 1)
     \<and> (\<forall>c. \<forall>ch \<in> set (detectChanges nd [c] prev).
           venue ch = Venue_Name_EN c \<and> date ch = Available_Date c \<and> time ch = time_range c)"
  proof (cases prev)
    case None
    then show ?thesis by (simp add: detectChanges_def)
  next
    case (Some pd)
    have "detectChanges nd cur (Some pd) = concat (map (\<lambda>c. detectChanges nd [c] (Some pd)) cur)"
      by (simp only: detectChanges_single) (rule detectChanges_concat)
    moreover have "length (detectChanges nd [c] (Some pd)) \<le> 1" for c
      by (simp only: detectChanges_single check_court_length)
    moreover have "venue ch = Venue_Name_EN c \<and> date ch = Available_Date c \<and> time ch = time_range c"
      if "ch \<in> set (detectChanges nd [c] (Some pd))" for c ch
      using that check_court_fields [of ch nd "previousMap pd" c] by (simp add: detectChanges_single)
    ultimately show ?thesis using Some by blast
  qed
  have "length (detectChanges_basic [c] prev) \<le> 1" for c
  proof (cases prev)
    case None
    then show ?thesis by (simp add: detectChanges_basic_def)
  next
    case (Some pd)
    then show ?thesis by (simp only: detectChanges_basic_single check_entry_length)
  qed
  with enhanced detectChanges_basic_keys [of cur prev] detectChanges_basic_distinct [of cur prev]
  show ?thesis by blast
qed

theorem detectChanges_order_witness:
  "hd (detectChanges host_Date [slot_A (JNum 2)] (Some [slot_A (JNum 0)]))
       \<in> set (detectChanges host_Date [slot_A (JNum 2)] (Some [slot_A (JNum 0)]))
   \<and> venue (hd (detectChanges host_Date [slot_A (JNum 2)] (Some [slot_A (JNum 0)])))
       = Venue_Name_EN (slot_A (JNum 2))
   \<and> detectChanges host_Date [slot_A (JNum 2), slot_A (JNum 3)] (Some [slot_A (JNum 0)])
       = detectChanges host_Date [slot_A (JNum 2)] (Some [slot_A (JNum 0)])
           @ detectChanges host_Date [slot_A (JNum 3)] (Some [slot_A (JNum 0)])
   \<and> map currentCount
        (detectChanges host_Date [slot_A (JNum 2), slot_A (JNum 3)] (Some [slot_A (JNum 0)]))
       = [Fin 2, Fin 3]
   \<and> distinct (map court_key [slot_A (JNum 2), slot_B (JNum 1)])
   \<and> detectChanges_basic [slot_A (JNum 2), slot_B (JNum 1)] (Some [slot_A (JNum 0), slot_B (JNum 0)])
       = detectChanges_basic [slot_A (JNum 2)] (Some [slot_A (JNum 0), slot_B (JNum 0)])
           @ detectChanges_basic [slot_B (JNum 1)] (Some [slot_A (JNum 0), slot_B (JNum 0)])"
proof -
  note order =
    detectChanges_order [of host_Date "[slot_A (JNum 2), slot_A (JNum 3)]" "Some [slot_A (JNum 0)]"]
  have mem:
    "hd (detectChanges host_Date [slot_A (JNum 2)] (Some [slot_A (JNum 0)]))
       \<in> set (detectChanges host_Date [slot_A (JNum 2)] (Some [slot_A (JNum 0)]))"
    by (simp add: new_change_A)
  from order mem
  have "venue (hd (detectChanges host_Date [slot_A (JNum 2)] (Some [slot_A (JNum 0)])))
          = Venue_Name_EN (slot_A (JNum 2))"
    by blast
  moreover from order
  have "detectChanges host_Date [slot_A (JNum 2), slot_A (JNum 3)] (Some [slot_A (JNum 0)])
          = detectChanges host_Date [slot_A (JNum 2)] (Some [slot_A (JNum 0)])
              @ detectChanges host_Date [slot_A (JNum 3)] (Some [slot_A (JNum 0)])"
    by simp
  moreover
  have "map currentCount
          (detectChanges host_Date [slot_A (JNum 2), slot_A (JNum 3)] (Some [slot_A (JNum 0)]))
        = [Fin 2, Fin 3]"
    by (simp add: detectChanges_concat previousMap_single key_A check_court_def Let_def
        Available_Courts_slot_A parseInt_or_zero_JNum)
  moreover have d: "distinct (map court_key [slot_A (JNum 2), slot_B (JNum 1)])"
    by (simp add: key_A key_B)
  moreover from d
    detectChanges_order [of host_Date "[slot_A (JNum 2), slot_B (JNum 1)]"
      "Some [slot_A (JNum 0), slot_B (JNum 0)]"]
  have "detectChanges_basic [slot_A (JNum 2), slot_B (JNum 1)] (Some [slot_A (JNum 0), slot_B (JNum 0)])
       = concat (map (\<lambda>c. detectChanges_basic [c] (Some [slot_A (JNum 0), slot_B (JNum 0)]))
           [slot_A (JNum 2), slot_B (JNum 1)])"
    by blast
  then have "detectChanges_basic [slot_A (JNum 2), slot_B (JNum 1)] (Some [slot_A (JNum 0), slot_B (JNum 0)])
       = detectChanges_basic [slot_A (JNum 2)] (Some [slot_A (JNum 0), slot_B (JNum 0)])
           @ detectChanges_basic [slot_B (JNum 1)] (Some [slot_A (JNum 0), slot_B (JNum 0)])"
    by simp
  ultimately show ?thesis using mem by simp
qed

text \<open>
  In \<open>monitor-courts.js\<close>, the current dataset \<open>A\<close> with 2 courts, \<open>B\<close> with 1 court,
  \<open>A\<close> with 3 courts against a previous dataset with no court at \<open>A\<close> and \<open>B\<close> gives
  two changes, for \<open>A\<close> with 3 courts and then for \<open>B\<close>; element by element the
  dataset gives three changes, with 2, 1 and 3 courts.
\<close>

theorem detectChanges_order_counterexample:
  "map courts
     (detectChanges_basic [slot_A (JNum 2), slot_B (JNum 1), slot_A (JNum 3)]
        (Some [slot_A (JNum 0), slot_B (JNum 0)])) = [Fin 3, Fin 1]
   \<and> map venue
     (detectChanges_basic [slot_A (JNum 2), slot_B (JNum 1), slot_A (JNum 3)]
        (Some [slot_A (JNum 0), slot_B (JNum 0)])) = [JStr ''A'', JStr ''B'']
   \<and> map courts
     (concat (map (\<lambda>c. detectChanges_basic [c] (Some [slot_A (JNum 0), slot_B (JNum 0)]))
        [slot_A (JNum 2), slot_B (JNum 1), slot_A (JNum 3)])) = [Fin 2, Fin 1, Fin 3]"
  by (simp add: basic_example basic_single_A basic_single_B)

section \<open>Invariant of an emitted change\<close>

text \<open>
  C10. Every change that \<open>detectChanges\<close> returns has integer counts with
  \<open>currentCount > previousCount \<ge> 0\<close> and \<open>currentCount \<ge> 1\<close>; its type is
  \<open>new_availability\<close> exactly when the previous count is 0 and
  \<open>increased_availability\<close> exactly when it is positive.
\<close>

theorem detectChanges_invariant:
  assumes "ch \<in> set (detectChanges nd cur prev)"
  shows "\<exists>c p. currentCount ch = Fin c \<and> previousCount ch = Fin p \<and> p < c \<and> 0 \<le> p \<and> 1 \<le> c
           \<and> (type ch = new_availability \<longleftrightarrow> p = 0)
           \<and> (type ch = increased_availability \<longleftrightarrow> 0 < p)"
proof (cases prev)
  case None
  with assms show ?thesis by (simp add: detectChanges_def)
next
  case (Some pd)
  with assms obtain cur' where "ch \<in> set (check_court nd (previousMap pd) [] cur')"
    by (auto simp: detectChanges_concat)
  then show ?thesis by (rule check_court_invariant)
qed

theorem detectChanges_invariant_witness:
  "hd (detectChanges host_Date [slot_A (JNum 2)] (Some [slot_A (JNum 0)]))
     \<in> set (detectChanges host_Date [slot_A (JNum 2)] (Some [slot_A (JNum 0)]))
   \<and> currentCount (hd (detectChanges host_Date [slot_A (JNum 2)] (Some [slot_A (JNum 0)]))) = Fin 2
   \<and> previousCount (hd (detectChanges host_Date [slot_A (JNum 2)] (Some [slot_A (JNum 0)]))) = Fin 0
   \<and> type (hd (detectChanges host_Date [slot_A (JNum 2)] (Some [slot_A (JNum 0)])))
       = new_availability"
  using detectChanges_invariant
    [of "hd (detectChanges host_Date [slot_A (JNum 2)] (Some [slot_A (JNum 0)]))"
      host_Date "[slot_A (JNum 2)]" "Some [slot_A (JNum 0)]"]
  by (simp add: new_change_A)

section \<open>The notification\<close>



text \<open>
  C7 (as amended). \<open>formatNotificationContent\<close> gives no notification for the empty
  list. For a list of one change it gives the title \<open>Court Available!\<close> after the
  badminton symbol, and the message of that change as the body. \<open>formatNotificationMessage\<close>
  of \<open>monitor-courts.js\<close> returns the string \<open>No changes detected\<close> for the empty list;
  its \<open>main\<close> prints a message only when the list of changes is not empty.
\<close>

theorem format_none_or_one:
  "formatNotificationContent [] = None
   \<and> formatNotificationContent [ch] =
       Some \<lparr>title = badminton @ '' Court Available!'', body = message ch, changes = [ch]\<rparr>
   \<and> formatNotificationMessage w [] = Inr ''No changes detected''
   \<and> (snd (main_basic w http prev) \<noteq> [] \<longrightarrow>
        (\<exists>cur. http = Some cur \<and> detectChanges_basic cur prev \<noteq> []))"
  using main_basic_printed [of w http prev]
  by (simp add: formatNotificationContent_def formatNotificationMessage_def)

theorem format_none_or_one_witness:
  "snd (main_basic host_weekday (Some [slot_A (JNum 2)]) (Some [slot_A (JNum 0)])) \<noteq> []
   \<and> detectChanges_basic [slot_A (JNum 2)] (Some [slot_A (JNum 0)]) \<noteq> []"
proof -
  have "\<exists>m. formatNotificationMessage host_weekday
               (detectChanges_basic [slot_A (JNum 2)] (Some [slot_A (JNum 0)])) = Inr m"
    unfolding basic_new_A formatNotificationMessage_def
    by (simp add: render_change_def)
  then have printed:
    "snd (main_basic host_weekday (Some [slot_A (JNum 2)]) (Some [slot_A (JNum 0)])) \<noteq> []"
    by (auto simp: main_basic_def Let_def basic_new_A)
  with format_none_or_one [of "change_with []" host_weekday "Some [slot_A (JNum 2)]" "Some [slot_A (JNum 0)]"]
  show ?thesis by simp
qed

text \<open>
  \<open>formatNotificationMessage\<close> on the empty list returns a string.
\<close>

theorem format_none_or_one_counterexample:
  "formatNotificationMessage host_weekday [] = Inr ''No changes detected''"
  by (simp add: formatNotificationMessage_def)

section \<open>The stored snapshot\<close>



section \<open>Shrinking the chunked store\<close>

text \<open>
  C9, at an input where the code departs from it. A save deletes the ten documents
  that follow the last chunk it writes and no document beyond them. After a save of 1200
  records (12 chunks), a save of 100 records (1 chunk) sets \<open>totalChunks\<close> to 1 and
  leaves the document \<open>chunk_11\<close> in the collection.
\<close>

theorem stale_chunk_after_shrink:
  "map_option totalChunks
     (metadata (saveCurrentData_chunked True later (replicate 100 c)
        (saveCurrentData_chunked True now (replicate 1200 c) empty_store))) = Some 1
   \<and> chunk (saveCurrentData_chunked True later (replicate 100 c)
        (saveCurrentData_chunked True now (replicate 1200 c) empty_store)) 11 \<noteq> None"
proof -
  have "chunk (saveCurrentData_chunked True now (replicate 1200 c) empty_store) 11 \<noteq> None"
    by (rule chunk_written_by_save) (simp add: chunks_1200)
  moreover have "chunk (saveCurrentData_chunked True later (replicate 100 c)
        (saveCurrentData_chunked True now (replicate 1200 c) empty_store)) 11
      = chunk (saveCurrentData_chunked True now (replicate 1200 c) empty_store) 11"
    by (rule chunk_kept_after_save) (simp add: chunks_100)
  ultimately show ?thesis
    by (simp add: metadata_after_save chunks_100)
qed

end
